theory Spec2Isabelle
  imports Complex_Main "HOL-Library.AList" "HOL-Library.Sublist"
    "HOL-Library.Char_ord" "HOL-Library.List_Lexorder" "HOL-Library.Product_Lexorder"
begin

section \<open>Syntax tree layout (visualize\_syntax\_tree.py)\<close>

text \<open>
  A tree node of the JSON document is a dictionary with the keys \<open>id\<close> and \<open>value\<close> and the
  optional keys \<open>left\<close> and \<open>right\<close>. The source treats a missing key and a key holding
  \<open>None\<close> alike (\<open>'left' in node and node['left'] is not None\<close>), so a child is an
  \<open>option\<close>. The type of ids is a parameter: the layout only uses ids as dictionary
  keys.
\<close>

datatype 'a node =
  Node (node_id: 'a) (node_value: string) (left: "'a node option") (right: "'a node option")

text \<open>
  Coordinates. Python computes them in binary floating point; the model computes them in
  the rationals. With the arguments \<open>draw_tree\<close> passes (\<open>x = 0\<close>, \<open>x_spacing = 1.5\<close>)
  every x-coordinate and every width is a multiple of \<open>1.5\<close> bounded by the number of
  nodes times \<open>1.5\<close>; such values and their sums are represented exactly by a double,
  so the floating-point x-coordinates are the rational ones (lemma \<open>x_grid\<close>). The
  y-coordinates
  (\<open>y_spacing = 1.2\<close>) are rounded by Python; no statement below depends on their value.
\<close>

type_synonym 'a positions = "'a \<rightharpoonup> rat \<times> rat"

fun calculate_tree_positions ::
  "'a node option \<Rightarrow> rat \<Rightarrow> rat \<Rightarrow> nat \<Rightarrow> rat \<Rightarrow> rat \<Rightarrow> 'a positions \<times> rat"
where
  "calculate_tree_positions None x y level x_spacing y_spacing = (Map.empty, 0)"
| "calculate_tree_positions (Some (Node i v l r)) x y level x_spacing y_spacing =
    (let (left_positions, left_width) =
           (case l of
              None \<Rightarrow> (Map.empty, 0)
            | Some lc \<Rightarrow> calculate_tree_positions (Some lc) x (y - y_spacing) (level + 1)
                          x_spacing y_spacing);
         current_x = x + left_width;
         positions = [i \<mapsto> (current_x, y)];
         (right_positions, right_width) =
           (case r of
              None \<Rightarrow> (Map.empty, 0)
            | Some rc \<Rightarrow> calculate_tree_positions (Some rc) (current_x + x_spacing)
                          (y - y_spacing) (level + 1) x_spacing y_spacing);
         positions = positions ++ left_positions;
         positions = positions ++ right_positions;
         total_width = left_width + x_spacing + right_width
     in (positions, total_width))"

text \<open>The ids of the nodes reachable from a root, the nodes themselves and their number.\<close>

fun node_ids :: "'a node option \<Rightarrow> 'a list" where
  "node_ids None = []"
| "node_ids (Some (Node i v l r)) = i # node_ids l @ node_ids r"

fun subnodes :: "'a node option \<Rightarrow> 'a node list" where
  "subnodes None = []"
| "subnodes (Some (Node i v l r)) = Node i v l r # subnodes l @ subnodes r"

fun node_count :: "'a node option \<Rightarrow> nat" where
  "node_count None = 0"
| "node_count (Some (Node i v l r)) = 1 + node_count l + node_count r"

text \<open>
  The ids of the nodes with the level the recursion of \<open>calculate_tree_positions\<close> visits
  them at (its parameter \<open>level\<close>, which grows by one per call), so that two nodes are at
  the same depth when they carry the same level.
\<close>

fun node_levels :: "'a node option \<Rightarrow> nat \<Rightarrow> ('a \<times> nat) list" where
  "node_levels None level = []"
| "node_levels (Some (Node i v l r)) level =
     (i, level) # node_levels l (level + 1) @ node_levels r (level + 1)"

text \<open>A tree is non-degenerate when every node has no child or both children.\<close>

fun non_degenerate :: "'a node option \<Rightarrow> bool" where
  "non_degenerate None = True"
| "non_degenerate (Some (Node i v l r)) =
     ((l = None \<longleftrightarrow> r = None) \<and> non_degenerate l \<and> non_degenerate r)"

text \<open>The x-coordinate a position mapping holds for an id (\<open>positions[i][0]\<close>).\<close>

definition x_of :: "'a positions \<Rightarrow> 'a \<Rightarrow> rat option" where
  "x_of positions i = map_option fst (positions i)"

text \<open>
  \<open>draw_tree\<close>: the guard on the root, then the layout with the default arguments. What
  the function returns to the model's caller is what it printed and the layout it drew
  and saved to \<open>syntax_tree.png\<close> (\<open>None\<close> when the function returned before drawing).
  The figure itself (circles, colours, legend, title) belongs to matplotlib and is left
  out.
\<close>

record 'a tree_data =
  root :: "'a node option"
  original_regex :: "string option"
  regex_with_concat :: "string option"
  postfix :: "string option"

definition draw_tree :: "'a tree_data \<Rightarrow> string list \<times> 'a positions option" where
  "draw_tree tree_data =
    (case root tree_data of
       None \<Rightarrow> ([''Error: No root node found in syntax tree.''], None)
     | Some n \<Rightarrow>
        (let (positions, w) = calculate_tree_positions (Some n) 0 0 0 (3 / 2) (6 / 5)
         in ([''Syntax tree visualization saved as '' @ [CHR 0x27] @ ''syntax_tree.png''
               @ [CHR 0x27]], Some positions)))"

section \<open>Loading a document (both scripts)\<close>

text \<open>
  \<open>load_dfa\<close> and \<open>load_syntax_tree\<close> open a file and hand it to \<open>json.load\<close> inside a
  \<open>try\<close> statement with two handlers. Both calls can raise. \<open>open\<close> raises
  \<open>FileNotFoundError\<close> for a name without a file, and other exceptions for a file it
  cannot open (\<open>PermissionError\<close>, \<open>IsADirectoryError\<close>); the file store gives, for a
  name, the exception or the bytes of the file. \<open>json.load\<close>, which is not code of this
  repository, is a parameter: on the bytes of a file it returns the document or raises
  (\<open>UnicodeDecodeError\<close> when the bytes are not UTF-8, \<open>JSONDecodeError\<close> when the text
  is not JSON, \<open>RecursionError\<close> when the text is nested too deeply).
\<close>

datatype load_error =
  FileNotFoundError | PermissionError | IsADirectoryError
  | UnicodeDecodeError | JSONDecodeError | RecursionError

text \<open>
  The outcome of a loader: the document it returns, or \<open>sys.exit(status)\<close> with the lines
  printed before it, or the exception that no handler caught and that leaves the
  function. The last two hold no document.
\<close>

datatype 'd loaded = Returned 'd | Exited int "string list" | Raised load_error

text \<open>The body of the \<open>try\<close> statement (lines 17 and 18).\<close>

definition try_body ::
  "(string \<Rightarrow> load_error + string) \<Rightarrow> (string \<Rightarrow> load_error + 'd) \<Rightarrow> string \<Rightarrow> load_error + 'd"
where
  "try_body files json_load filename =
    (case files filename of
       Inl e \<Rightarrow> Inl e
     | Inr content \<Rightarrow> json_load content)"

definition load_dfa ::
  "(string \<Rightarrow> load_error + string) \<Rightarrow> (string \<Rightarrow> load_error + 'd) \<Rightarrow> string \<Rightarrow> 'd loaded"
where
  "load_dfa files json_load filename =
    (case try_body files json_load filename of
       Inr doc \<Rightarrow> Returned doc
     | Inl e \<Rightarrow>
        if e = FileNotFoundError then Exited 1 [''Error: '' @ filename @ '' not found.'']
        else if e = JSONDecodeError then Exited 1 [''Error: Invalid JSON in '' @ filename]
        else Raised e)"

definition load_syntax_tree ::
  "(string \<Rightarrow> load_error + string) \<Rightarrow> (string \<Rightarrow> load_error + 'd) \<Rightarrow> string \<Rightarrow> 'd loaded"
where
  "load_syntax_tree files json_load filename =
    (case try_body files json_load filename of
       Inr doc \<Rightarrow> Returned doc
     | Inl e \<Rightarrow>
        if e = FileNotFoundError then Exited 1 [''Error: '' @ filename @ '' not found.'']
        else if e = JSONDecodeError then Exited 1 [''Error: Invalid JSON in '' @ filename]
        else Raised e)"

section \<open>The DFA document and its graph (visualize\_dfa.py)\<close>

text \<open>
  The document: \<open>states\<close> (a list of \<open>{id, accepting}\<close>), \<open>start_state\<close> and
  \<open>transitions\<close> (a list of \<open>{from, to, symbol}\<close>). \<open>dfa_data.get('states', [])\<close>
  reads a missing key as the empty list and \<open>dfa_data.get('start_state')\<close> reads a
  missing key as \<open>None\<close>. Ids are values of one type with Python's equality; symbols
  are strings.
\<close>

record 'a state =
  state_id :: 'a
  accepting :: bool

record 'a transition =
  from_state :: 'a
  to_state :: 'a
  symbol :: string

record 'a dfa_data =
  states :: "'a state list"
  start_state :: "'a option"
  transitions :: "'a transition list"

datatype error = KeyError

text \<open>
  The part of \<open>networkx.DiGraph\<close> the script uses. Nodes are kept in insertion order
  with their attribute \<open>accepting\<close>, which a node created by \<open>add_edge\<close> does not have;
  edges are kept in insertion order. \<open>G.edges()\<close> lists the edges source by source, in
  the order of the nodes.
\<close>

record 'a digraph =
  nodes :: "('a \<times> bool option) list"
  edges :: "('a \<times> 'a) list"

definition empty_graph :: "'a digraph" where
  "empty_graph = \<lparr>nodes = [], edges = []\<rparr>"

definition add_node :: "'a digraph \<Rightarrow> 'a \<Rightarrow> bool \<Rightarrow> 'a digraph" where
  "add_node G n acc = G\<lparr>nodes := AList.update n (Some acc) (nodes G)\<rparr>"

definition touch_node :: "'a \<Rightarrow> ('a \<times> bool option) list \<Rightarrow> ('a \<times> bool option) list" where
  "touch_node n ns = (if n \<in> set (map fst ns) then ns else ns @ [(n, None)])"

definition add_edge :: "'a digraph \<Rightarrow> 'a \<Rightarrow> 'a \<Rightarrow> 'a digraph" where
  "add_edge G u v =
     \<lparr>nodes = touch_node v (touch_node u (nodes G)),
      edges = (if (u, v) \<in> set (edges G) then edges G else edges G @ [(u, v)])\<rparr>"

definition has_edge :: "'a digraph \<Rightarrow> 'a \<Rightarrow> 'a \<Rightarrow> bool" where
  "has_edge G u v = ((u, v) \<in> set (edges G))"

definition edges_view :: "'a digraph \<Rightarrow> ('a \<times> 'a) list" where
  "edges_view G = concat (map (\<lambda>(u, a). filter (\<lambda>e. fst e = u) (edges G)) (nodes G))"

subsection \<open>Transition aggregation\<close>

text \<open>
  Python's \<open>s.split(', ')\<close>: the text is cut at every occurrence of the separator, found
  from the left; \<open>split_from acc s\<close> carries the characters of the piece being read.
\<close>

fun split_from :: "string \<Rightarrow> string \<Rightarrow> string list" where
  "split_from acc [] = [acc]"
| "split_from acc [c] = [acc @ [c]]"
| "split_from acc (c # d # cs) =
     (if c = CHR '','' \<and> d = CHR '' '' then acc # split_from [] cs
      else split_from (acc @ [c]) (d # cs))"

definition split :: "string \<Rightarrow> string list" where
  "split s = split_from [] s"

type_synonym 'a edge_labels = "(('a \<times> 'a) \<times> string) list"

text \<open>
  One turn of the loop over the transitions (lines 46 to 59). \<open>edge_labels\<close> is a Python
  dictionary: an association list in insertion order, where an assignment to a present
  key replaces the value in place. Reading a missing key raises \<open>KeyError\<close>.
\<close>

definition add_transition ::
  "'a digraph \<times> 'a edge_labels \<Rightarrow> 'a transition \<Rightarrow> error + 'a digraph \<times> 'a edge_labels"
where
  "add_transition st tr =
    (let (G, edge_labels) = st;
         from_st = from_state tr;
         to_st = to_state tr;
         sym = symbol tr
     in if has_edge G from_st to_st then
          (case map_of edge_labels (from_st, to_st) of
             None \<Rightarrow> Inl KeyError
           | Some current_label \<Rightarrow>
               if sym \<notin> set (split current_label)
               then Inr (G, AList.update (from_st, to_st) (current_label @ '', '' @ sym)
                             edge_labels)
               else Inr (G, edge_labels))
        else Inr (add_edge G from_st to_st, AList.update (from_st, to_st) sym edge_labels))"

fun add_transitions ::
  "'a digraph \<times> 'a edge_labels \<Rightarrow> 'a transition list \<Rightarrow> error + 'a digraph \<times> 'a edge_labels"
where
  "add_transitions st [] = Inr st"
| "add_transitions st (tr # rest) =
     (case add_transition st tr of
        Inl e \<Rightarrow> Inl e
      | Inr st' \<Rightarrow> add_transitions st' rest)"

text \<open>Lines 38 to 59: the graph with the declared states, then the loop.\<close>

definition add_states :: "'a state list \<Rightarrow> 'a digraph" where
  "add_states sts = fold (\<lambda>s G. add_node G (state_id s) (accepting s)) sts empty_graph"

definition build_graph :: "'a dfa_data \<Rightarrow> error + 'a digraph \<times> 'a edge_labels" where
  "build_graph dfa_data = add_transitions (add_states (states dfa_data), []) (transitions dfa_data)"

subsection \<open>Drawing\<close>

text \<open>
  What \<open>draw_dfa\<close> hands to matplotlib, without the coordinates: those come from
  \<open>networkx.spring_layout\<close>, which returns a position for every node of the graph, so
  that \<open>pos[u]\<close> never fails. An edge is drawn as a dashed circle with its label when it is
  a self-loop and as an arrow with its label otherwise. A node is drawn with its two
  colours, an outer circle when it is accepting, and the start arrow with the text
  \<open>Start\<close> when it is the start state. Title, legend and the summary box are fixed
  decorations and are left out.
\<close>

datatype 'a edge_shape = SelfLoop 'a string | Arrow 'a 'a string

record 'a node_shape =
  shape_id :: 'a
  node_color :: string
  edge_color :: string
  outer_circle :: bool
  start_arrow :: bool

record 'a scene =
  edge_shapes :: "'a edge_shape list"
  node_shapes :: "'a node_shape list"

fun draw_edges :: "'a edge_labels \<Rightarrow> ('a \<times> 'a) list \<Rightarrow> error + 'a edge_shape list" where
  "draw_edges edge_labels [] = Inr []"
| "draw_edges edge_labels ((u, v) # rest) =
     (case map_of edge_labels (u, v) of
        None \<Rightarrow> Inl KeyError
      | Some label \<Rightarrow>
         (case draw_edges edge_labels rest of
            Inl e \<Rightarrow> Inl e
          | Inr shapes \<Rightarrow>
              Inr ((if u = v then SelfLoop u label else Arrow u v label) # shapes)))"

fun draw_nodes :: "'a option \<Rightarrow> ('a \<times> bool option) list \<Rightarrow> error + 'a node_shape list" where
  "draw_nodes start_state_id [] = Inr []"
| "draw_nodes start_state_id ((node, attr) # rest) =
     (case attr of
        None \<Rightarrow> Inl KeyError
      | Some is_accepting \<Rightarrow>
         (let is_start = (Some node = start_state_id);
              (fill, outline) =
                 (if is_start \<and> is_accepting then (''#90EE90'', ''#228B22'')
                  else if is_start then (''#87CEEB'', ''#4169E1'')
                  else if is_accepting then (''#FFB6C1'', ''#DC143C'')
                  else (''#F0F0F0'', ''#696969''));
              shape = \<lparr>shape_id = node, node_color = fill, edge_color = outline,
                        outer_circle = is_accepting, start_arrow = is_start\<rparr>
          in case draw_nodes start_state_id rest of
               Inl e \<Rightarrow> Inl e
             | Inr shapes \<Rightarrow> Inr (shape # shapes)))"

text \<open>
  \<open>draw_dfa\<close> returns the lines it printed and the scene it saved to \<open>dfa.png\<close>
  (\<open>None\<close> when it returned before drawing), or the exception that ended it.
\<close>

definition draw_dfa :: "'a dfa_data \<Rightarrow> error + string list \<times> 'a scene option" where
  "draw_dfa dfa_data =
    (let sts = states dfa_data;
         start_state_id = start_state dfa_data;
         trs = transitions dfa_data
     in if sts = [] then Inr ([''Error: No states found in DFA.''], None)
        else
          (case build_graph dfa_data of
             Inl e \<Rightarrow> Inl e
           | Inr (G, edge_labels) \<Rightarrow>
              (case draw_edges edge_labels (edges_view G) of
                 Inl e \<Rightarrow> Inl e
               | Inr es \<Rightarrow>
                  (case draw_nodes start_state_id (nodes G) of
                     Inl e \<Rightarrow> Inl e
                   | Inr ns \<Rightarrow>
                       Inr ([''DFA visualization saved as '' @ [CHR 0x27] @ ''dfa.png''
                              @ [CHR 0x27]],
                            Some \<lparr>edge_shapes = es, node_shapes = ns\<rparr>)))))"

subsection \<open>The console report of \<open>main\<close>\<close>

text \<open>
  Python's \<open>', '.join\<close>, \<open>str\<close> on a natural number and on an integer, and the format
  \<open><w\<close> (left-justified in a field of width \<open>w\<close>). \<open>str\<close> on an id is a parameter of
  the report, as the type of ids is. \<open>sorted\<close> is a stable sort on the key
  \<open>(from, symbol, to)\<close>, compared lexicographically.
\<close>

fun join :: "string list \<Rightarrow> string" where
  "join [] = []"
| "join [s] = s"
| "join (s # t # ss) = s @ '', '' @ join (t # ss)"

fun str_nat :: "nat \<Rightarrow> string" where
  "str_nat n =
     (if n < 10 then [char_of (48 + n)]
      else str_nat (n div 10) @ [char_of (48 + n mod 10)])"

definition str_int :: "int \<Rightarrow> string" where
  "str_int i = (if i < 0 then CHR ''-'' # str_nat (nat (- i)) else str_nat (nat i))"

definition ljust :: "nat \<Rightarrow> string \<Rightarrow> string" where
  "ljust w s = s @ replicate (w - length s) (CHR '' '')"

definition accepting_states :: "'a state list \<Rightarrow> 'a list" where
  "accepting_states sts = map state_id (filter accepting sts)"

definition accepting_line :: "('a \<Rightarrow> string) \<Rightarrow> 'a state list \<Rightarrow> string" where
  "accepting_line str sts =
     ''Accepting States:  {'' @ join (map str (accepting_states sts)) @ ''}''"

definition table_row :: "('a \<Rightarrow> string) \<Rightarrow> 'a transition \<Rightarrow> string" where
  "table_row str tr =
     ljust 8 (str (from_state tr)) @ '' '' @ ljust 10 (symbol tr) @ '' ''
       @ ljust 8 (str (to_state tr))"

definition report :: "('a::linorder \<Rightarrow> string) \<Rightarrow> 'a dfa_data \<Rightarrow> string list" where
  "report str dfa_data =
    (let sts = states dfa_data;
         start_state_id = start_state dfa_data;
         trs = transitions dfa_data
     in ['''', replicate 70 (CHR ''=''),
         ''DFA (DETERMINISTIC FINITE AUTOMATON)'',
         replicate 70 (CHR ''=''),
         ''Total States:      '' @ str_nat (length sts),
         ''Start State:       '' @ (case start_state_id of None \<Rightarrow> ''None'' | Some q \<Rightarrow> str q),
         accepting_line str sts,
         ''Total Transitions: '' @ str_nat (length trs),
         '''',
         ''Transition Table:'',
         replicate 70 (CHR ''-''),
         ljust 8 ''From'' @ '' '' @ ljust 10 ''Symbol'' @ '' '' @ ljust 8 ''To'',
         replicate 70 (CHR ''-'')]
        @ map (table_row str)
            (sort_key (\<lambda>t. (from_state t, symbol t, to_state t)) trs)
        @ [replicate 70 (CHR ''=''), ''''])"

section \<open>What the specification says about aggregation\<close>

text \<open>
  The words of the specification, as functions: the distinct elements of a list in the
  order of their first appearance, the symbols of the transitions of an ordered pair, and
  the separator as a part of a symbol.
\<close>

definition first_seen :: "'b list \<Rightarrow> 'b list" where
  "first_seen xs = fold (\<lambda>x seen. if x \<in> set seen then seen else seen @ [x]) xs []"

definition pair_of :: "'a transition \<Rightarrow> 'a \<times> 'a" where
  "pair_of tr = (from_state tr, to_state tr)"

definition symbols_of :: "'a transition list \<Rightarrow> 'a \<times> 'a \<Rightarrow> string list" where
  "symbols_of trs p = map symbol (filter (\<lambda>tr. pair_of tr = p) trs)"

fun has_sep :: "string \<Rightarrow> bool" where
  "has_sep (c # d # cs) = ((c = CHR '','' \<and> d = CHR '' '') \<or> has_sep (d # cs))"
| "has_sep cs = False"

section \<open>Example documents\<close>

text \<open>
  The tree \<open>{id: 0, value: '.', left: {id: 1, value: 'a'}, right: {id: 2, value: 'b'}}\<close>,
  a DFA with the transitions \<open>(0, 1, 'a')\<close>, \<open>(0, 1, 'b')\<close>, \<open>(0, 1, 'a')\<close>,
  and a DFA whose \<open>start_state\<close> is the id of no state.
\<close>

definition example_tree :: "int node" where
  "example_tree = Node 0 ''.'' (Some (Node 1 ''a'' None None)) (Some (Node 2 ''b'' None None))"

definition example_dfa :: "int dfa_data" where
  "example_dfa =
    \<lparr>states = [\<lparr>state_id = 0, accepting = False\<rparr>, \<lparr>state_id = 1, accepting = True\<rparr>],
     start_state = Some 0,
     transitions = [\<lparr>from_state = 0, to_state = 1, symbol = ''a''\<rparr>,
                    \<lparr>from_state = 0, to_state = 1, symbol = ''b''\<rparr>,
                    \<lparr>from_state = 0, to_state = 1, symbol = ''a''\<rparr>]\<rparr>"

definition dangling_dfa :: "int dfa_data" where
  "dangling_dfa =
    \<lparr>states = [\<lparr>state_id = 0, accepting = False\<rparr>, \<lparr>state_id = 1, accepting = True\<rparr>],
     start_state = Some 5,
     transitions = [\<lparr>from_state = 0, to_state = 1, symbol = ''a''\<rparr>]\<rparr>"

text \<open>
  A file store and a stand-in for \<open>json.load\<close> that agrees with it on the contents of
  this store: \<open>dfa.json\<close> holds the text \<open>{}\<close>, which parses to a document without
  states, start state and transitions; \<open>broken.json\<close> holds the text \<open>{\<close>, which is not
  JSON; \<open>binary.json\<close> holds the byte \<open>0xFF\<close>, which is not UTF-8; \<open>plots\<close> is a
  directory; no other name has a file.
\<close>

definition example_files :: "string \<Rightarrow> load_error + string" where
  "example_files name =
    (if name = ''dfa.json'' then Inr ''{}''
     else if name = ''broken.json'' then Inr ''{''
     else if name = ''binary.json'' then Inr [CHR 0xFF]
     else if name = ''plots'' then Inl IsADirectoryError
     else Inl FileNotFoundError)"

definition example_json_load :: "string \<Rightarrow> load_error + int dfa_data" where
  "example_json_load content =
    (if content = ''{}'' then Inr \<lparr>states = [], start_state = None, transitions = []\<rparr>
     else if content = [CHR 0xFF] then Inl UnicodeDecodeError
     else Inl JSONDecodeError)"

section \<open>Properties of the tree layout\<close>

text \<open>
  The call for a child that may be absent is the call on the option itself, which gives
  the recursion equation the proofs use.
\<close>

lemma child_call:
  "(case c of None \<Rightarrow> (Map.empty, 0)
    | Some cn \<Rightarrow> calculate_tree_positions (Some cn) x y lv xs ys)
   = calculate_tree_positions c x y lv xs ys"
  by (cases c) simp_all

lemma calc_Node:
  "calculate_tree_positions (Some (Node i v l r)) x y lv xs ys =
    (let lres = calculate_tree_positions l x (y - ys) (lv + 1) xs ys;
         rres = calculate_tree_positions r (x + snd lres + xs) (y - ys) (lv + 1) xs ys
     in ([i \<mapsto> (x + snd lres, y)] ++ fst lres ++ fst rres, snd lres + xs + snd rres))"
  by (simp add: child_call Let_def split: prod.splits)

declare calculate_tree_positions.simps(2) [simp del]

text \<open>The width is the number of nodes times the spacing; the keys are the ids.\<close>

lemma width_count:
  "snd (calculate_tree_positions t x y lv xs ys) = of_nat (node_count t) * xs"
  by (induction t arbitrary: x y lv rule: node_ids.induct)
     (simp_all add: calc_Node Let_def algebra_simps)

lemma dom_positions:
  "dom (fst (calculate_tree_positions t x y lv xs ys)) = set (node_ids t)"
  by (induction t arbitrary: x y lv rule: node_ids.induct)
     (auto simp add: calc_Node Let_def)

lemma positions_None:
  "j \<notin> set (node_ids t) \<Longrightarrow> fst (calculate_tree_positions t x y lv xs ys) j = None"
  using dom_positions [of t x y lv xs ys] by blast

lemma positions_Node:
  "fst (calculate_tree_positions (Some (Node i v l r)) x y lv xs ys) j =
    (let lw = of_nat (node_count l) * xs in
     case fst (calculate_tree_positions r (x + lw + xs) (y - ys) (lv + 1) xs ys) j of
       Some p \<Rightarrow> Some p
     | None \<Rightarrow>
        (case fst (calculate_tree_positions l x (y - ys) (lv + 1) xs ys) j of
           Some p \<Rightarrow> Some p
         | None \<Rightarrow> if j = i then Some (x + lw, y) else None))"
  by (simp add: calc_Node Let_def width_count map_add_def split: option.splits)

text \<open>
  The positions of a subtree lie in the band that starts at its anchor and is as wide as
  the subtree. The bands of the left subtree, of the node and of the right subtree follow
  one another, which orders and separates the x-coordinates when the ids are unique.
\<close>

lemma x_band:
  assumes "0 < xs" and "j \<in> set (node_ids t)"
  shows "\<exists>px py. fst (calculate_tree_positions t x y lv xs ys) j = Some (px, py)
           \<and> x \<le> px \<and> px < x + of_nat (node_count t) * xs"
  using assms(2)
proof (induction t arbitrary: x y lv rule: node_ids.induct)
  case 1
  then show ?case by simp
next
  case (2 i v l r)
  let ?lw = "of_nat (node_count l) * xs"
  let ?rw = "of_nat (node_count r) * xs"
  let ?lp = "fst (calculate_tree_positions l x (y - ys) (lv + 1) xs ys)"
  let ?rp = "fst (calculate_tree_positions r (x + ?lw + xs) (y - ys) (lv + 1) xs ys)"
  have lw: "0 \<le> ?lw" and rw: "0 \<le> ?rw" using assms(1) by simp_all
  have total: "of_nat (node_count (Some (Node i v l r))) * xs = ?lw + xs + ?rw"
    by (simp add: algebra_simps)
  show ?case
  proof (cases "j \<in> set (node_ids r)")
    case True
    from "2.IH"(2) [OF True, of "x + ?lw + xs" "y - ys" "lv + 1"]
    obtain px py where p: "?rp j = Some (px, py)" "x + ?lw + xs \<le> px" "px < x + ?lw + xs + ?rw"
      by blast
    have "x \<le> px" "px < x + (?lw + xs + ?rw)" using p(2,3) lw assms(1) by linarith+
    with p(1) show ?thesis unfolding total
      by (simp add: positions_Node Let_def del: node_count.simps)
  next
    case notr: False
    then have rn: "?rp j = None" by (rule positions_None)
    show ?thesis
    proof (cases "j \<in> set (node_ids l)")
      case True
      from "2.IH"(1) [OF True, of x "y - ys" "lv + 1"]
      obtain px py where p: "?lp j = Some (px, py)" "x \<le> px" "px < x + ?lw"
        by blast
      have "px < x + (?lw + xs + ?rw)" using p(3) rw assms(1) by linarith
      with p(1,2) rn show ?thesis unfolding total
        by (simp add: positions_Node Let_def del: node_count.simps)
    next
      case False
      then have ln: "?lp j = None" by (rule positions_None)
      from False notr "2.prems" have "j = i" by simp
      moreover have "x \<le> x + ?lw" "x + ?lw < x + (?lw + xs + ?rw)"
        using lw rw assms(1) by linarith+
      ultimately show ?thesis using rn ln unfolding total
        by (simp add: positions_Node Let_def del: node_count.simps)
    qed
  qed
qed

lemma x_of_Node_root:
  assumes "i \<notin> set (node_ids l)" "i \<notin> set (node_ids r)"
  shows "x_of (fst (calculate_tree_positions (Some (Node i v l r)) x y lv xs ys)) i
         = Some (x + of_nat (node_count l) * xs)"
  using assms by (simp add: x_of_def positions_Node Let_def positions_None)

lemma x_of_Node_left:
  assumes "j \<in> set (node_ids l)" "j \<notin> set (node_ids r)"
  shows "x_of (fst (calculate_tree_positions (Some (Node i v l r)) x y lv xs ys)) j
         = x_of (fst (calculate_tree_positions l x (y - ys) (lv + 1) xs ys)) j"
proof -
  from assms(1) dom_positions [of l x "y - ys" "lv + 1" xs ys]
  obtain p where "fst (calculate_tree_positions l x (y - ys) (lv + 1) xs ys) j = Some p"
    by blast
  then show ?thesis using assms(2)
    by (simp add: x_of_def positions_Node Let_def positions_None)
qed

lemma x_of_Node_right:
  assumes "j \<in> set (node_ids r)"
  shows "x_of (fst (calculate_tree_positions (Some (Node i v l r)) x y lv xs ys)) j
         = x_of (fst (calculate_tree_positions r (x + of_nat (node_count l) * xs + xs)
                  (y - ys) (lv + 1) xs ys)) j"
proof -
  from assms dom_positions
    [of r "x + of_nat (node_count l) * xs + xs" "y - ys" "lv + 1" xs ys]
  obtain p where "fst (calculate_tree_positions r (x + of_nat (node_count l) * xs + xs)
     (y - ys) (lv + 1) xs ys) j = Some p"
    by blast
  then show ?thesis
    by (simp add: x_of_def positions_Node Let_def)
qed

lemma x_of_band:
  assumes "0 < xs" and "j \<in> set (node_ids t)"
  shows "\<exists>px. x_of (fst (calculate_tree_positions t x y lv xs ys)) j = Some px
           \<and> x \<le> px \<and> px < x + of_nat (node_count t) * xs"
  using x_band [OF assms, of x y lv ys] by (auto simp: x_of_def)

lemma x_of_inj:
  assumes "0 < xs"
  shows "distinct (node_ids t) \<Longrightarrow> a \<in> set (node_ids t) \<Longrightarrow> b \<in> set (node_ids t) \<Longrightarrow> a \<noteq> b
    \<Longrightarrow> x_of (fst (calculate_tree_positions t x y lv xs ys)) a
      \<noteq> x_of (fst (calculate_tree_positions t x y lv xs ys)) b"
proof (induction t arbitrary: x y lv rule: node_ids.induct)
  case 1
  then show ?case by simp
next
  case (2 i v l r)
  let ?lw = "of_nat (node_count l) * xs"
  let ?P = "\<lambda>j. x_of (fst (calculate_tree_positions (Some (Node i v l r)) x y lv xs ys)) j"
  from "2.prems"(1) have d: "distinct (node_ids l)" "distinct (node_ids r)"
    "i \<notin> set (node_ids l)" "i \<notin> set (node_ids r)"
    "set (node_ids l) \<inter> set (node_ids r) = {}"
    by simp_all
  have root: "?P i = Some (x + ?lw)" using d(3,4) by (rule x_of_Node_root)
  have lband: "\<exists>px. ?P j = Some px \<and> px < x + ?lw" if "j \<in> set (node_ids l)" for j
  proof -
    from that d(5) have "j \<notin> set (node_ids r)" by blast
    with that x_of_band [OF assms that, of x "y - ys" "lv + 1" ys]
    show ?thesis by (auto simp: x_of_Node_left)
  qed
  have rband: "\<exists>px. ?P j = Some px \<and> x + ?lw + xs \<le> px" if "j \<in> set (node_ids r)" for j
    using that x_of_band [OF assms that, of "x + ?lw + xs" "y - ys" "lv + 1" ys]
    by (auto simp: x_of_Node_right)
  have ll: "?P a \<noteq> ?P b" if "a \<in> set (node_ids l)" "b \<in> set (node_ids l)"
  proof -
    from that d(5) have "a \<notin> set (node_ids r)" "b \<notin> set (node_ids r)" by blast+
    with that "2.IH"(1) [OF d(1) that "2.prems"(4), of x "y - ys" "lv + 1"]
    show ?thesis by (simp add: x_of_Node_left)
  qed
  have rr: "?P a \<noteq> ?P b" if "a \<in> set (node_ids r)" "b \<in> set (node_ids r)"
    using that "2.IH"(2) [OF d(2) that "2.prems"(4), of "x + ?lw + xs" "y - ys" "lv + 1"]
    by (simp add: x_of_Node_right)
  from "2.prems"(2,3) have
    "(a = i \<or> a \<in> set (node_ids l) \<or> a \<in> set (node_ids r))"
    "(b = i \<or> b \<in> set (node_ids l) \<or> b \<in> set (node_ids r))" by auto
  then show ?case
    using root lband [of a] lband [of b] rband [of a] rband [of b] ll rr "2.prems"(4) assms
    by (elim disjE) (auto simp del: node_ids.simps)
qed

text \<open>
  Every x-coordinate lies on the grid of the spacing: it is the anchor plus \<open>k\<close> times
  the spacing for some \<open>k\<close> below the number of nodes. With the anchor 0 and the spacing
  \<open>1.5\<close> these are the values a double represents exactly.
\<close>

lemma x_grid:
  assumes "j \<in> set (node_ids t)"
  shows "\<exists>k < node_count t.
           x_of (fst (calculate_tree_positions t x y lv xs ys)) j = Some (x + of_nat k * xs)"
  using assms
proof (induction t arbitrary: x y lv rule: node_ids.induct)
  case 1
  then show ?case by simp
next
  case (2 i v l r)
  let ?lw = "of_nat (node_count l) * xs"
  let ?P = "\<lambda>j. x_of (fst (calculate_tree_positions (Some (Node i v l r)) x y lv xs ys)) j"
  show ?case
  proof (cases "j \<in> set (node_ids r)")
    case True
    from "2.IH"(2) [OF True, of "x + ?lw + xs" "y - ys" "lv + 1"]
    obtain k where k: "k < node_count r"
      "x_of (fst (calculate_tree_positions r (x + ?lw + xs) (y - ys) (lv + 1) xs ys)) j
         = Some (x + ?lw + xs + of_nat k * xs)"
      by blast
    have "?P j = Some (x + of_nat (node_count l + 1 + k) * xs)"
      using k(2) by (simp add: x_of_Node_right [OF True] algebra_simps)
    moreover have "node_count l + 1 + k < node_count (Some (Node i v l r))"
      using k(1) by simp
    ultimately show ?thesis by blast
  next
    case notr: False
    show ?thesis
    proof (cases "j \<in> set (node_ids l)")
      case True
      from "2.IH"(1) [OF True, of x "y - ys" "lv + 1"]
      obtain k where k: "k < node_count l"
        "x_of (fst (calculate_tree_positions l x (y - ys) (lv + 1) xs ys)) j
           = Some (x + of_nat k * xs)"
        by blast
      have "?P j = Some (x + of_nat k * xs)"
        using k(2) by (simp add: x_of_Node_left [OF True notr])
      moreover have "k < node_count (Some (Node i v l r))" using k(1) by simp
      ultimately show ?thesis by blast
    next
      case False
      with notr "2.prems" have ji: "j = i" by simp
      have "?P j = Some (x + of_nat (node_count l) * xs)"
        using False notr
        by (simp add: ji x_of_def positions_Node Let_def positions_None)
      moreover have "node_count l < node_count (Some (Node i v l r))" by simp
      ultimately show ?thesis by blast
    qed
  qed
qed

text \<open>The nodes of a tree, their children and their levels.\<close>

lemma node_ids_subnodes: "node_ids t = map node_id (subnodes t)"
  by (induction t rule: node_ids.induct) simp_all

lemma root_subnode: "c \<in> set (subnodes (Some c))"
  by (cases c) simp

lemma child_subnode:
  "n \<in> set (subnodes t) \<Longrightarrow> left n = Some c \<or> right n = Some c \<Longrightarrow> c \<in> set (subnodes t)"
proof (induction t rule: node_ids.induct)
  case 1
  then show ?case by simp
next
  case (2 i v l r)
  then show ?case using root_subnode [of c] by auto
qed

lemma child_id:
  "n \<in> set (subnodes t) \<Longrightarrow> left n = Some c \<or> right n = Some c \<Longrightarrow> node_id c \<in> set (node_ids t)"
  using child_subnode [of n t c] by (simp add: node_ids_subnodes)

lemma levels_ids: "map fst (node_levels t lv) = node_ids t"
  by (induction t arbitrary: lv rule: node_ids.induct) simp_all

lemma children_ordered:
  assumes "0 < xs"
  shows "distinct (node_ids t) \<Longrightarrow> n \<in> set (subnodes t) \<Longrightarrow> left n = Some lc \<Longrightarrow> right n = Some rc
    \<Longrightarrow> \<exists>xl xr. x_of (fst (calculate_tree_positions t x y lv xs ys)) (node_id lc) = Some xl
          \<and> x_of (fst (calculate_tree_positions t x y lv xs ys)) (node_id rc) = Some xr
          \<and> xl < xr"
proof (induction t arbitrary: x y lv rule: node_ids.induct)
  case 1
  then show ?case by simp
next
  case (2 i v l r)
  let ?lw = "of_nat (node_count l) * xs"
  from "2.prems"(1) have d: "distinct (node_ids l)" "distinct (node_ids r)"
    "set (node_ids l) \<inter> set (node_ids r) = {}"
    by simp_all
  from "2.prems"(2) consider (root) "n = Node i v l r"
    | (inl) "n \<in> set (subnodes l)" | (inr) "n \<in> set (subnodes r)"
    by auto
  then show ?case
  proof cases
    case root
    with "2.prems"(3,4) have lr: "l = Some lc" "r = Some rc" by simp_all
    have il: "node_id lc \<in> set (node_ids l)" and ir: "node_id rc \<in> set (node_ids r)"
      using root_subnode [of lc] root_subnode [of rc] lr by (simp_all add: node_ids_subnodes)
    from il d(3) have nl: "node_id lc \<notin> set (node_ids r)" by blast
    from x_of_band [OF assms il, of x "y - ys" "lv + 1" ys]
    obtain xl where xl: "x_of (fst (calculate_tree_positions l x (y - ys) (lv + 1) xs ys))
        (node_id lc) = Some xl" "xl < x + ?lw" by blast
    from x_of_band [OF assms ir, of "x + ?lw + xs" "y - ys" "lv + 1" ys]
    obtain xr where xr: "x_of (fst (calculate_tree_positions r (x + ?lw + xs) (y - ys)
        (lv + 1) xs ys)) (node_id rc) = Some xr" "x + ?lw + xs \<le> xr" by blast
    have "xl < xr" using xl(2) xr(2) assms by linarith
    with xl(1) xr(1) show ?thesis
      by (simp add: x_of_Node_left [OF il nl] x_of_Node_right [OF ir])
  next
    case inl
    have il: "node_id lc \<in> set (node_ids l)" and ir: "node_id rc \<in> set (node_ids l)"
      using child_id [OF inl, of lc] child_id [OF inl, of rc] "2.prems"(3,4) by simp_all
    from il ir d(3) have nl: "node_id lc \<notin> set (node_ids r)"
      and nr: "node_id rc \<notin> set (node_ids r)" by blast+
    from "2.IH"(1) [OF d(1) inl "2.prems"(3,4), of x "y - ys" "lv + 1"]
    show ?thesis
      by (simp add: x_of_Node_left [OF il nl] x_of_Node_left [OF ir nr])
  next
    case inr
    have il: "node_id lc \<in> set (node_ids r)" and ir: "node_id rc \<in> set (node_ids r)"
      using child_id [OF inr, of lc] child_id [OF inr, of rc] "2.prems"(3,4) by simp_all
    from "2.IH"(2) [OF d(2) inr "2.prems"(3,4), of "x + ?lw + xs" "y - ys" "lv + 1"]
    show ?thesis
      by (simp add: x_of_Node_right [OF il] x_of_Node_right [OF ir])
  qed
qed

section \<open>Properties of the aggregation\<close>

text \<open>The distinct elements in the order of their first appearance.\<close>

lemma first_seen_Nil: "first_seen [] = []"
  by (simp add: first_seen_def)

lemma first_seen_snoc:
  "first_seen (xs @ [x]) = (if x \<in> set (first_seen xs) then first_seen xs else first_seen xs @ [x])"
  by (simp add: first_seen_def)

lemma set_first_seen: "set (first_seen xs) = set xs"
  by (induction xs rule: rev_induct) (auto simp: first_seen_Nil first_seen_snoc)

lemma distinct_first_seen: "distinct (first_seen xs)"
  by (induction xs rule: rev_induct) (auto simp: first_seen_Nil first_seen_snoc)

lemma length_first_seen_le: "length (first_seen xs) \<le> length xs"
  by (induction xs rule: rev_induct) (auto simp: first_seen_Nil first_seen_snoc)

lemma length_first_seen_eq: "length (first_seen xs) = length xs \<longleftrightarrow> distinct xs"
proof (induction xs rule: rev_induct)
  case Nil
  then show ?case by (simp add: first_seen_Nil)
next
  case (snoc x xs)
  show ?case
  proof (cases "x \<in> set xs")
    case True
    then show ?thesis using length_first_seen_le [of xs]
      by (simp add: first_seen_snoc set_first_seen)
  next
    case False
    then show ?thesis using snoc by (simp add: first_seen_snoc set_first_seen)
  qed
qed

lemma first_seen_eq_Nil: "first_seen xs = [] \<longleftrightarrow> xs = []"
  using set_first_seen [of xs] by (metis set_empty)

text \<open>
  The loop, read from its last turn. After any list of transitions the edges of the graph
  are the distinct pairs in the order of their first appearance, and they are the keys of
  \<open>edge_labels\<close>, in the same order: the loop never reads a missing key.
\<close>

lemma add_transitions_snoc:
  "add_transitions st (ts @ [t]) =
     (case add_transitions st ts of Inl e \<Rightarrow> Inl e | Inr st' \<Rightarrow> add_transition st' t)"
  by (induction ts arbitrary: st) (auto split: sum.splits)

lemma add_transition_new:
  assumes "pair_of t \<notin> set (edges G)" "map fst labels = edges G"
  shows "\<exists>G'. add_transition (G, labels) t = Inr (G', AList.update (pair_of t) (symbol t) labels)
     \<and> edges G' = edges G @ [pair_of t]"
  using assms by (simp add: add_transition_def has_edge_def pair_of_def Let_def add_edge_def)

lemma add_transition_old:
  assumes "pair_of t \<in> set (edges G)" "map fst labels = edges G"
  shows "\<exists>cur. map_of labels (pair_of t) = Some cur \<and>
     add_transition (G, labels) t =
       Inr (G, if symbol t \<notin> set (split cur)
               then AList.update (pair_of t) (cur @ '', '' @ symbol t) labels else labels)"
proof -
  from assms have "pair_of t \<in> fst ` set labels" by (metis set_map)
  then obtain cur where "map_of labels (pair_of t) = Some cur"
    by (metis map_of_eq_None_iff not_Some_eq)
  then show ?thesis using assms(1)
    by (simp add: add_transition_def has_edge_def pair_of_def Let_def)
qed

lemma aggregate_structure:
  assumes "edges G0 = []"
  shows "\<exists>G labels. add_transitions (G0, []) ts = Inr (G, labels)
     \<and> edges G = first_seen (map pair_of ts) \<and> map fst labels = edges G"
proof (induction ts rule: rev_induct)
  case Nil
  then show ?case using assms by (simp add: first_seen_Nil)
next
  case (snoc t ts)
  then obtain G labels where st: "add_transitions (G0, []) ts = Inr (G, labels)"
    and e: "edges G = first_seen (map pair_of ts)" and k: "map fst labels = edges G"
    by blast
  show ?case
  proof (cases "pair_of t \<in> set (edges G)")
    case True
    from add_transition_old [OF True k] obtain cur where
      "add_transition (G, labels) t =
       Inr (G, if symbol t \<notin> set (split cur)
               then AList.update (pair_of t) (cur @ '', '' @ symbol t) labels else labels)"
      by blast
    moreover have "map fst (AList.update (pair_of t) v labels) = map fst labels" for v
      using True k by (simp add: update_keys)
    ultimately show ?thesis using st e k True
      by (simp add: add_transitions_snoc first_seen_snoc)
  next
    case False
    from add_transition_new [OF False k] obtain G' where
      "add_transition (G, labels) t = Inr (G', AList.update (pair_of t) (symbol t) labels)"
      "edges G' = edges G @ [pair_of t]"
      by blast
    moreover have "map fst (AList.update (pair_of t) v labels) = map fst labels @ [pair_of t]" for v
      using False k by (simp add: update_keys)
    ultimately show ?thesis using st e k False
      by (simp add: add_transitions_snoc first_seen_snoc)
  qed
qed

text \<open>
  Splitting a joined list gives the list back when no element contains the separator.
  With that, the label of a pair is the joined list of its distinct symbols.
\<close>

lemma split_from_no_sep: "\<not> has_sep s \<Longrightarrow> split_from acc s = [acc @ s]"
  by (induction acc s rule: split_from.induct) auto

lemma split_from_sep:
  "\<not> has_sep s \<Longrightarrow> split_from acc (s @ '', '' @ rest) = (acc @ s) # split_from [] rest"
  by (induction acc s rule: split_from.induct) auto

lemma split_join:
  "ss \<noteq> [] \<Longrightarrow> \<forall>s \<in> set ss. \<not> has_sep s \<Longrightarrow> split (join ss) = ss"
proof (induction ss rule: join.induct)
  case 1
  then show ?case by simp
next
  case (2 s)
  then show ?case by (simp add: split_def split_from_no_sep)
next
  case (3 s t ss)
  then show ?case using split_from_sep [of s "[]" "join (t # ss)"]
    by (simp add: split_def)
qed

lemma join_snoc: "ss \<noteq> [] \<Longrightarrow> join (ss @ [s]) = join ss @ '', '' @ s"
  by (induction ss rule: join.induct) auto

lemma symbols_of_snoc:
  "symbols_of (ts @ [t]) p = (if pair_of t = p then symbols_of ts p @ [symbol t] else symbols_of ts p)"
  by (simp add: symbols_of_def)

lemma symbols_of_empty: "symbols_of ts p = [] \<longleftrightarrow> p \<notin> set (map pair_of ts)"
  by (auto simp: symbols_of_def filter_empty_conv)

lemma symbols_of_subset: "set (symbols_of ts p) \<subseteq> symbol ` set ts"
  by (auto simp: symbols_of_def)

lemma aggregate_labels:
  assumes "edges G0 = []"
  shows "\<forall>t \<in> set ts. \<not> has_sep (symbol t) \<Longrightarrow>
    \<exists>G labels. add_transitions (G0, []) ts = Inr (G, labels)
     \<and> (\<forall>p \<in> set (map pair_of ts). map_of labels p = Some (join (first_seen (symbols_of ts p))))"
proof (induction ts rule: rev_induct)
  case Nil
  then show ?case by simp
next
  case (snoc t ts)
  from snoc.prems have ns: "\<forall>t \<in> set ts. \<not> has_sep (symbol t)" and nt: "\<not> has_sep (symbol t)"
    by simp_all
  from snoc.IH [OF ns] obtain G labels where st: "add_transitions (G0, []) ts = Inr (G, labels)"
    and lab: "\<forall>p \<in> set (map pair_of ts). map_of labels p = Some (join (first_seen (symbols_of ts p)))"
    by blast
  from aggregate_structure [OF assms, of ts] st
  have e: "edges G = first_seen (map pair_of ts)" and k: "map fst labels = edges G"
    by auto
  let ?p = "pair_of t"
  show ?case
  proof (cases "?p \<in> set (edges G)")
    case True
    then have pin: "?p \<in> set (map pair_of ts)" by (simp add: e set_first_seen)
    let ?seen = "first_seen (symbols_of ts ?p)"
    from pin have ne: "?seen \<noteq> []" by (simp add: first_seen_eq_Nil symbols_of_empty)
    have "\<forall>s \<in> set ?seen. \<not> has_sep s"
      using ns symbols_of_subset [of ts ?p] by (auto simp: set_first_seen)
    with ne have sp: "split (join ?seen) = ?seen" by (rule split_join)
    from lab pin have cur: "map_of labels ?p = Some (join ?seen)" by blast
    from add_transition_old [OF True k] cur
    have step: "add_transition (G, labels) t =
       Inr (G, if symbol t \<notin> set ?seen
               then AList.update ?p (join ?seen @ '', '' @ symbol t) labels else labels)"
      by (auto simp: sp)
    let ?labels' = "if symbol t \<notin> set ?seen
               then AList.update ?p (join ?seen @ '', '' @ symbol t) labels else labels"
    have "map_of ?labels' q = Some (join (first_seen (symbols_of (ts @ [t]) q)))"
      if "q \<in> set (map pair_of (ts @ [t]))" for q
    proof (cases "q = ?p")
      case True
      then show ?thesis using cur ne
        by (simp add: symbols_of_snoc first_seen_snoc join_snoc update_conv')
    next
      case False
      with that have "q \<in> set (map pair_of ts)" by auto
      with lab have "map_of labels q = Some (join (first_seen (symbols_of ts q)))" by blast
      with False show ?thesis
        by (simp add: symbols_of_snoc update_conv')
    qed
    with st step show ?thesis by (simp add: add_transitions_snoc del: set_map map_append)
  next
    case False
    then have pnin: "?p \<notin> set (map pair_of ts)" by (simp add: e set_first_seen)
    then have em: "symbols_of ts ?p = []" by (simp add: symbols_of_empty)
    from add_transition_new [OF False k] obtain G' where
      step: "add_transition (G, labels) t = Inr (G', AList.update ?p (symbol t) labels)"
      by blast
    have "map_of (AList.update ?p (symbol t) labels) q
            = Some (join (first_seen (symbols_of (ts @ [t]) q)))"
      if "q \<in> set (map pair_of (ts @ [t]))" for q
    proof (cases "q = ?p")
      case True
      have "first_seen [symbol t] = [symbol t]" by (simp add: first_seen_def)
      with True show ?thesis using em
        by (simp add: symbols_of_snoc update_conv')
    next
      case False
      with that have "q \<in> set (map pair_of ts)" by auto
      with lab have "map_of labels q = Some (join (first_seen (symbols_of ts q)))" by blast
      with False show ?thesis
        by (simp add: symbols_of_snoc update_conv')
    qed
    with st step show ?thesis by (simp add: add_transitions_snoc del: set_map map_append)
  qed
qed

section \<open>Properties of the drawing\<close>

text \<open>
  The graph of the declared states has no edge, and every node of it has the attribute
  \<open>accepting\<close>. Transitions between declared states add no node, so that the loops over
  the edges and over the nodes find every key they read.
\<close>

lemma edges_add_states: "edges (add_states sts) = []"
proof -
  have "edges (fold (\<lambda>s G. add_node G (state_id s) (accepting s)) sts G) = edges G" for G :: "'a digraph"
    by (induction sts arbitrary: G) (simp_all add: add_node_def)
  then show ?thesis by (simp add: add_states_def empty_graph_def)
qed

lemma set_update_subset: "set (AList.update k v al) \<subseteq> insert (k, v) (set al)"
  by (induction al) auto

lemma fold_add_node:
  fixes G :: "'a digraph"
  assumes "\<forall>na \<in> set (nodes G). snd na \<noteq> None"
  shows "(\<forall>na \<in> set (nodes (fold (\<lambda>s G. add_node G (state_id s) (accepting s)) sts G)). snd na \<noteq> None)
    \<and> fst ` set (nodes (fold (\<lambda>s G. add_node G (state_id s) (accepting s)) sts G))
        = fst ` set (nodes G) \<union> state_id ` set sts"
  using assms
proof (induction sts arbitrary: G)
  case Nil
  then show ?case by simp
next
  case (Cons s sts)
  let ?G = "add_node G (state_id s) (accepting s)"
  have "\<forall>na \<in> set (nodes ?G). snd na \<noteq> None"
    using Cons.prems set_update_subset [of "state_id s" "Some (accepting s)" "nodes G"]
    by (auto simp: add_node_def)
  from Cons.IH [OF this] show ?case
    by (auto simp: add_node_def dom_update)
qed

lemma nodes_add_states:
  "(\<forall>na \<in> set (nodes (add_states sts)). snd na \<noteq> None)
   \<and> fst ` set (nodes (add_states sts)) = state_id ` set sts"
  using fold_add_node [of empty_graph sts] by (simp add: add_states_def empty_graph_def)

lemma add_transition_nodes:
  assumes "add_transition (G, labels) t = Inr (G', labels')"
    and "from_state t \<in> fst ` set (nodes G)" and "to_state t \<in> fst ` set (nodes G)"
  shows "nodes G' = nodes G"
  using assms
  by (auto simp: add_transition_def Let_def add_edge_def touch_node_def
           split: if_splits option.splits)

lemma add_transitions_nodes:
  "add_transitions (G, labels) ts = Inr (G', labels') \<Longrightarrow>
   \<forall>t \<in> set ts. from_state t \<in> fst ` set (nodes G) \<and> to_state t \<in> fst ` set (nodes G) \<Longrightarrow>
   nodes G' = nodes G"
proof (induction ts arbitrary: G labels)
  case Nil
  then show ?case by simp
next
  case (Cons t ts)
  from Cons.prems(1) obtain G1 labels1 where
    s1: "add_transition (G, labels) t = Inr (G1, labels1)"
    and s2: "add_transitions (G1, labels1) ts = Inr (G', labels')"
    by (auto split: sum.splits)
  from add_transition_nodes [OF s1] Cons.prems(2) have n1: "nodes G1 = nodes G" by simp
  with Cons.IH [OF s2] Cons.prems(2) show ?case by simp
qed

lemma draw_nodes_ok:
  "\<forall>na \<in> set ns. snd na \<noteq> None \<Longrightarrow>
   \<exists>shapes. draw_nodes start ns = Inr shapes
     \<and> map shape_id shapes = map fst ns
     \<and> (\<forall>sh \<in> set shapes. start_arrow sh = (Some (shape_id sh) = start)
          \<and> (start_arrow sh \<longleftrightarrow> node_color sh = ''#90EE90'' \<or> node_color sh = ''#87CEEB''))"
proof (induction ns)
  case Nil
  then show ?case by simp
next
  case (Cons na ns)
  obtain n a where na: "na = (n, a)" by (cases na)
  with Cons.prems obtain acc where a: "a = Some acc" by auto
  from Cons.IH Cons.prems obtain shapes where "draw_nodes start ns = Inr shapes"
    "map shape_id shapes = map fst ns"
    "\<forall>sh \<in> set shapes. start_arrow sh = (Some (shape_id sh) = start)
          \<and> (start_arrow sh \<longleftrightarrow> node_color sh = ''#90EE90'' \<or> node_color sh = ''#87CEEB'')"
    by auto
  then show ?case by (auto simp add: na a Let_def)
qed

lemma draw_edges_ok:
  "set es \<subseteq> fst ` set labels \<Longrightarrow> \<exists>shapes. draw_edges labels es = Inr shapes"
proof (induction es)
  case Nil
  then show ?case by simp
next
  case (Cons e es)
  obtain u v where e: "e = (u, v)" by (cases e)
  with Cons.prems have "(u, v) \<in> fst ` set labels" by simp
  then obtain l where "map_of labels (u, v) = Some l"
    by (metis map_of_eq_None_iff not_Some_eq)
  moreover from Cons obtain shapes where "draw_edges labels es = Inr shapes" by auto
  ultimately show ?case by (simp add: e)
qed

lemma edges_view_subset: "set (edges_view G) \<subseteq> set (edges G)"
  by (auto simp: edges_view_def)

lemma draw_dfa_ok:
  assumes "states d \<noteq> []"
    and "\<forall>t \<in> set (transitions d). from_state t \<in> state_id ` set (states d)
            \<and> to_state t \<in> state_id ` set (states d)"
  shows "\<exists>sc. draw_dfa d = Inr ([''DFA visualization saved as '' @ [CHR 0x27] @ ''dfa.png''
                              @ [CHR 0x27]], Some sc)
     \<and> set (map shape_id (node_shapes sc)) = state_id ` set (states d)
     \<and> (\<forall>sh \<in> set (node_shapes sc). start_arrow sh = (Some (shape_id sh) = start_state d)
          \<and> (start_arrow sh \<longleftrightarrow> node_color sh = ''#90EE90'' \<or> node_color sh = ''#87CEEB''))"
proof -
  let ?G0 = "add_states (states d)"
  from aggregate_structure [OF edges_add_states, of "states d" "transitions d"]
  obtain G labels where r: "add_transitions (?G0, []) (transitions d) = Inr (G, labels)"
    and k: "map fst labels = edges G" by blast
  have n0: "\<forall>na \<in> set (nodes ?G0). snd na \<noteq> None" "fst ` set (nodes ?G0) = state_id ` set (states d)"
    using nodes_add_states [of "states d"] by simp_all
  have n: "nodes G = nodes ?G0"
    using add_transitions_nodes [OF r] assms(2) n0(2) by simp
  have "set (edges_view G) \<subseteq> fst ` set labels"
    using edges_view_subset [of G] k by (metis set_map)
  from draw_edges_ok [OF this] obtain es where es: "draw_edges labels (edges_view G) = Inr es"
    by blast
  from draw_nodes_ok [of "nodes G" "start_state d"] n n0(1)
  obtain ns where ns: "draw_nodes (start_state d) (nodes G) = Inr ns"
    "map shape_id ns = map fst (nodes G)"
    "\<forall>sh \<in> set ns. start_arrow sh = (Some (shape_id sh) = start_state d)
          \<and> (start_arrow sh \<longleftrightarrow> node_color sh = ''#90EE90'' \<or> node_color sh = ''#87CEEB'')"
    by auto
  have "set (map shape_id ns) = state_id ` set (states d)"
    using ns(2) n n0(2) by (metis set_map)
  with ns(3) r es ns(1) assms(1) show ?thesis
    by (auto simp add: draw_dfa_def build_graph_def Let_def)
qed

section \<open>Evaluations used below\<close>

lemma build_example: "build_graph example_dfa =
     Inr (\<lparr>nodes = [(0, Some False), (1, Some True)], edges = [(0, 1)]\<rparr>, [((0, 1), ''a, b'')])"
  by (simp add: example_dfa_def build_graph_def add_states_def add_node_def empty_graph_def
        add_transition_def has_edge_def add_edge_def touch_node_def split_def Let_def)

lemma str_int_1: "str_int 1 = ''1''"
  by code_simp

lemma str_int_2: "str_int 2 = ''2''"
  by code_simp

lemma str_int_5: "str_int 5 = ''5''"
  by code_simp


section \<open>The claims about the tree layout\<close>

text \<open>
  Claim C5. For a non-empty tree the keys of the returned position mapping are exactly
  the ids of the nodes reachable from the root, every such id has exactly one position,
  and an absent subtree gives the empty mapping and the width 0.
\<close>

theorem layout_keys:
  "dom (fst (calculate_tree_positions (Some n) x y level x_spacing y_spacing))
      = set (node_ids (Some n))
   \<and> (\<forall>i \<in> set (node_ids (Some n)).
         \<exists>!p. fst (calculate_tree_positions (Some n) x y level x_spacing y_spacing) i = Some p)
   \<and> calculate_tree_positions None x y level x_spacing y_spacing = (Map.empty, 0)"
proof -
  let ?P = "fst (calculate_tree_positions (Some n) x y level x_spacing y_spacing)"
  have d: "dom ?P = set (node_ids (Some n))" by (rule dom_positions)
  have "\<exists>!p. ?P i = Some p" if "i \<in> set (node_ids (Some n))" for i
  proof -
    from that d have "i \<in> dom ?P" by simp
    then show ?thesis by auto
  qed
  with d show ?thesis by simp
qed

theorem layout_keys_witness:
  "dom (fst (calculate_tree_positions (Some example_tree) 0 0 0 (3 / 2) (6 / 5))) = {0, 1, 2}
   \<and> 2 \<in> set (node_ids (Some example_tree))
   \<and> x_of (fst (calculate_tree_positions (Some example_tree) 0 0 0 (3 / 2) (6 / 5))) 2 = Some 3
   \<and> (\<exists>!p. fst (calculate_tree_positions (Some example_tree) 0 0 0 (3 / 2) (6 / 5)) 2 = Some p)"
proof -
  have ids: "node_ids (Some example_tree) = [0, 1, 2]"
    by (simp add: example_tree_def)
  have p: "x_of (fst (calculate_tree_positions (Some example_tree) 0 0 0 (3 / 2) (6 / 5))) 2 = Some 3"
    by (simp add: example_tree_def x_of_def calculate_tree_positions.simps)
  from layout_keys [of example_tree 0 0 0 "3 / 2" "6 / 5"] ids p
  show ?thesis by auto
qed

text \<open>
  Claim C10. The width returned for a non-empty subtree is the number of its nodes times
  the horizontal spacing.
\<close>

theorem layout_width_counts_nodes:
  "snd (calculate_tree_positions (Some n) x y level x_spacing y_spacing)
     = of_nat (node_count (Some n)) * x_spacing"
  by (rule width_count)

text \<open>
  Claim C4. In a tree whose ids are unique (the invariant of the data model), laid out
  with a positive horizontal spacing (\<open>1.5\<close> in the program), every node with both
  children has its left child at a strictly smaller x-coordinate than its right child.
\<close>

theorem left_child_left_of_right_child:
  assumes "0 < x_spacing" and "distinct (node_ids t)"
    and "n \<in> set (subnodes t)" and "left n = Some lc" and "right n = Some rc"
  shows "\<exists>xl xr.
      x_of (fst (calculate_tree_positions t x y level x_spacing y_spacing)) (node_id lc) = Some xl
    \<and> x_of (fst (calculate_tree_positions t x y level x_spacing y_spacing)) (node_id rc) = Some xr
    \<and> xl < xr"
  using assms by (rule children_ordered)

theorem left_child_left_of_right_child_witness:
  "(0::rat) < 3 / 2 \<and> distinct (node_ids (Some example_tree))
   \<and> example_tree \<in> set (subnodes (Some example_tree))
   \<and> left example_tree = Some (Node 1 ''a'' None None)
   \<and> right example_tree = Some (Node 2 ''b'' None None)
   \<and> x_of (fst (calculate_tree_positions (Some example_tree) 0 0 0 (3 / 2) (6 / 5))) 1 = Some 0
   \<and> x_of (fst (calculate_tree_positions (Some example_tree) 0 0 0 (3 / 2) (6 / 5))) 2 = Some 3
   \<and> (\<exists>xl xr.
      x_of (fst (calculate_tree_positions (Some example_tree) 0 0 0 (3 / 2) (6 / 5))) 1 = Some xl
    \<and> x_of (fst (calculate_tree_positions (Some example_tree) 0 0 0 (3 / 2) (6 / 5))) 2 = Some xr
    \<and> xl < xr)"
proof -
  have h1: "(0::rat) < 3 / 2" by simp
  have h2: "distinct (node_ids (Some example_tree))" by (simp add: example_tree_def)
  have h3: "example_tree \<in> set (subnodes (Some example_tree))" by (simp add: example_tree_def)
  have h4: "left example_tree = Some (Node 1 ''a'' None None)" by (simp add: example_tree_def)
  have h5: "right example_tree = Some (Node 2 ''b'' None None)" by (simp add: example_tree_def)
  have v: "x_of (fst (calculate_tree_positions (Some example_tree) 0 0 0 (3 / 2) (6 / 5))) 1 = Some 0"
    "x_of (fst (calculate_tree_positions (Some example_tree) 0 0 0 (3 / 2) (6 / 5))) 2 = Some 3"
    by (simp_all add: example_tree_def x_of_def calculate_tree_positions.simps)
  from left_child_left_of_right_child [OF h1 h2 h3 h4 h5, of 0 0 0 "6 / 5"] h1 h2 h3 h4 h5 v
  show ?thesis by simp
qed

text \<open>
  Claim C3. In a non-degenerate tree whose ids are unique, laid out with a positive
  horizontal spacing, two different nodes at the same depth have different
  x-coordinates. (The proof shows more: any two different nodes have different
  x-coordinates, whatever their depths and the shape of the tree.)
\<close>

theorem same_depth_distinct_x:
  assumes "non_degenerate t" and "distinct (node_ids t)" and "0 < x_spacing"
    and "(a, d) \<in> set (node_levels t level)" and "(b, d) \<in> set (node_levels t level)"
    and "a \<noteq> b"
  shows "\<exists>xa xb.
      x_of (fst (calculate_tree_positions t x y level x_spacing y_spacing)) a = Some xa
    \<and> x_of (fst (calculate_tree_positions t x y level x_spacing y_spacing)) b = Some xb
    \<and> xa \<noteq> xb"
proof -
  have a: "a \<in> set (node_ids t)" and b: "b \<in> set (node_ids t)"
    using assms(4,5) levels_ids [of t level] by (metis fst_conv image_eqI set_map)+
  from x_of_band [OF assms(3) a, of x y level y_spacing]
  obtain xa where xa: "x_of (fst (calculate_tree_positions t x y level x_spacing y_spacing)) a = Some xa"
    by blast
  from x_of_band [OF assms(3) b, of x y level y_spacing]
  obtain xb where xb: "x_of (fst (calculate_tree_positions t x y level x_spacing y_spacing)) b = Some xb"
    by blast
  from x_of_inj [OF assms(3,2) a b assms(6), of x y level y_spacing] xa xb
  show ?thesis by simp
qed

theorem same_depth_distinct_x_witness:
  "non_degenerate (Some example_tree) \<and> distinct (node_ids (Some example_tree)) \<and> (0::rat) < 3 / 2
   \<and> (1, 1) \<in> set (node_levels (Some example_tree) 0)
   \<and> (2, 1) \<in> set (node_levels (Some example_tree) 0) \<and> (1::int) \<noteq> 2
   \<and> (\<exists>xa xb.
      x_of (fst (calculate_tree_positions (Some example_tree) 0 0 0 (3 / 2) (6 / 5))) 1 = Some xa
    \<and> x_of (fst (calculate_tree_positions (Some example_tree) 0 0 0 (3 / 2) (6 / 5))) 2 = Some xb
    \<and> xa \<noteq> xb)"
proof -
  have h1: "non_degenerate (Some example_tree)" by (simp add: example_tree_def)
  have h2: "distinct (node_ids (Some example_tree))" by (simp add: example_tree_def)
  have h3: "(0::rat) < 3 / 2" by simp
  have h4: "(1, 1) \<in> set (node_levels (Some example_tree) 0)" by (simp add: example_tree_def)
  have h5: "(2, 1) \<in> set (node_levels (Some example_tree) 0)" by (simp add: example_tree_def)
  have h6: "(1::int) \<noteq> 2" by simp
  from same_depth_distinct_x [OF h1 h2 h3 h4 h5 h6, of 0 0 "6 / 5"] h1 h2 h3 h4 h5
  show ?thesis by simp
qed

section \<open>The claims about the aggregation\<close>

text \<open>
  Claim C1, as amended: when no symbol of the document contains the separator
  \<open>', '\<close>, the loop ends without an exception, there is exactly one merged edge for every
  ordered pair that has a transition, and its label is the comma-space-joined list of the
  distinct symbols of the transitions of that pair, in the order of their first
  appearance.
\<close>

theorem merged_labels:
  assumes "\<forall>t \<in> set (transitions d). \<not> has_sep (symbol t)"
  shows "\<exists>G labels. build_graph d = Inr (G, labels)
     \<and> distinct (map fst labels)
     \<and> set (map fst labels) = set (map pair_of (transitions d))
     \<and> (\<forall>p \<in> set (map pair_of (transitions d)).
           map_of labels p = Some (join (first_seen (symbols_of (transitions d) p))))"
proof -
  from aggregate_labels [OF edges_add_states assms, of "states d"]
  obtain G labels where r: "build_graph d = Inr (G, labels)"
    and l: "\<forall>p \<in> set (map pair_of (transitions d)).
           map_of labels p = Some (join (first_seen (symbols_of (transitions d) p)))"
    unfolding build_graph_def by blast
  from aggregate_structure [OF edges_add_states, of "states d" "transitions d"] r
  have k: "map fst labels = first_seen (map pair_of (transitions d))"
    unfolding build_graph_def by auto
  have "distinct (map fst labels)" unfolding k by (rule distinct_first_seen)
  moreover have "set (map fst labels) = set (map pair_of (transitions d))"
    unfolding k by (rule set_first_seen)
  ultimately show ?thesis using r l by blast
qed

theorem merged_labels_witness:
  "list_all (\<lambda>t. \<not> has_sep (symbol t)) (transitions example_dfa)
   \<and> build_graph example_dfa =
     Inr (\<lparr>nodes = [(0, Some False), (1, Some True)], edges = [(0, 1)]\<rparr>, [((0, 1), ''a, b'')])
   \<and> (0, 1) \<in> set (map pair_of (transitions example_dfa))
   \<and> join (first_seen (symbols_of (transitions example_dfa) (0, 1))) = ''a, b''
   \<and> (\<exists>G labels. build_graph example_dfa = Inr (G, labels)
     \<and> distinct (map fst labels)
     \<and> set (map fst labels) = set (map pair_of (transitions example_dfa))
     \<and> (\<forall>p \<in> set (map pair_of (transitions example_dfa)).
           map_of labels p = Some (join (first_seen (symbols_of (transitions example_dfa) p)))))"
proof -
  have h: "\<forall>t \<in> set (transitions example_dfa). \<not> has_sep (symbol t)"
    by (simp add: example_dfa_def)
  have p: "(0, 1) \<in> set (map pair_of (transitions example_dfa))"
    by (simp add: example_dfa_def pair_of_def)
  have j: "join (first_seen (symbols_of (transitions example_dfa) (0, 1))) = ''a, b''"
    by (simp add: example_dfa_def symbols_of_def pair_of_def first_seen_def)
  have h': "list_all (\<lambda>t. \<not> has_sep (symbol t)) (transitions example_dfa)"
    using h by (simp add: list_all_iff)
  from merged_labels [OF h] h' p j build_example show ?thesis by blast
qed

text \<open>
  Claim C1 as it is stated fails on a symbol that contains the separator: after
  \<open>(0, 1, 'a, b')\<close> the label \<open>'a, b'\<close> splits into \<open>a\<close> and \<open>b\<close>, so the symbol \<open>a\<close> of
  the second transition counts as present and the label stays \<open>'a, b'\<close>, where the
  joined distinct symbols are \<open>'a, b, a'\<close>.
\<close>

theorem merged_labels_counterexample:
  "build_graph
     \<lparr>states = [\<lparr>state_id = 0::int, accepting = False\<rparr>, \<lparr>state_id = 1, accepting = True\<rparr>],
      start_state = Some 0,
      transitions = [\<lparr>from_state = 0, to_state = 1, symbol = ''a, b''\<rparr>,
                     \<lparr>from_state = 0, to_state = 1, symbol = ''a''\<rparr>]\<rparr>
    = Inr (\<lparr>nodes = [(0, Some False), (1, Some True)], edges = [(0, 1)]\<rparr>, [((0, 1), ''a, b'')])
   \<and> join (first_seen (symbols_of
        [\<lparr>from_state = 0::int, to_state = 1, symbol = ''a, b''\<rparr>,
         \<lparr>from_state = 0, to_state = 1, symbol = ''a''\<rparr>] (0, 1))) = ''a, b, a''"
  by (simp add: build_graph_def add_states_def add_node_def empty_graph_def
        add_transition_def has_edge_def add_edge_def touch_node_def split_def Let_def
        symbols_of_def pair_of_def first_seen_def)

text \<open>
  Claim C2. The loop ends without an exception; the number of merged edges is at most
  the number of transitions, and the two are equal exactly when no two transitions have
  the same ordered pair.
\<close>

theorem merged_edge_count:
  "\<exists>G labels. build_graph d = Inr (G, labels)
     \<and> map fst labels = edges G
     \<and> length labels \<le> length (transitions d)
     \<and> (length labels = length (transitions d) \<longleftrightarrow> distinct (map pair_of (transitions d)))"
proof -
  from aggregate_structure [OF edges_add_states, of "states d" "transitions d"]
  obtain G labels where r: "build_graph d = Inr (G, labels)"
    and e: "edges G = first_seen (map pair_of (transitions d))" and k: "map fst labels = edges G"
    unfolding build_graph_def by blast
  have len: "length labels = length (first_seen (map pair_of (transitions d)))"
    using e k by (metis length_map)
  have "length labels \<le> length (transitions d)"
    using length_first_seen_le [of "map pair_of (transitions d)"] len by simp
  moreover have "length labels = length (transitions d) \<longleftrightarrow> distinct (map pair_of (transitions d))"
    using length_first_seen_eq [of "map pair_of (transitions d)"] len by simp
  ultimately show ?thesis using r k by blast
qed

theorem merged_edge_count_witness:
  "build_graph example_dfa =
     Inr (\<lparr>nodes = [(0, Some False), (1, Some True)], edges = [(0, 1)]\<rparr>, [((0, 1), ''a, b'')])
   \<and> length [((0::int, 1::int), ''a, b'')] \<le> length (transitions example_dfa)
   \<and> \<not> distinct (map pair_of (transitions example_dfa))"
  using merged_edge_count [of example_dfa] build_example
  by (auto simp: example_dfa_def pair_of_def)

section \<open>The claims about the report, the drawing and the loader\<close>

text \<open>
  Claim C6, as amended: the line of the accepting states holds, between braces and joined
  by \<open>', '\<close>, the ids of the accepting states in the order in which these states occur in
  the document; nothing sorts them, whatever the type of the ids.
\<close>

theorem accepting_line_document_order:
  "accepting_line str sts = ''Accepting States:  {'' @ join (map str (accepting_states sts)) @ ''}''
   \<and> subseq (accepting_states sts) (map state_id sts)
   \<and> set (accepting_states sts) = {state_id s |s. s \<in> set sts \<and> accepting s}
   \<and> report str d ! 6 = accepting_line str (states d)"
proof -
  have "subseq (accepting_states sts) (map state_id sts)"
    unfolding accepting_states_def by (rule subseq_map) (rule subseq_filter_left)
  moreover have "set (accepting_states sts) = {state_id s |s. s \<in> set sts \<and> accepting s}"
    by (auto simp: accepting_states_def)
  moreover have "report str d ! 6 = accepting_line str (states d)"
    by (simp add: report_def Let_def)
  ultimately show ?thesis by (simp add: accepting_line_def)
qed

text \<open>
  Claim C6 as it is stated fails on integer ids that the document lists in descending
  order: the states 2 and 1, both accepting, are printed as \<open>{2, 1}\<close>.
\<close>

theorem accepting_line_counterexample:
  "accepting_states [\<lparr>state_id = 2::int, accepting = True\<rparr>, \<lparr>state_id = 1, accepting = True\<rparr>] = [2, 1]
   \<and> accepting_line str_int [\<lparr>state_id = 2, accepting = True\<rparr>, \<lparr>state_id = 1, accepting = True\<rparr>]
       = ''Accepting States:  {2, 1}''
   \<and> \<not> sorted [2::int, 1]"
  by (simp add: accepting_states_def accepting_line_def str_int_1 str_int_2)

text \<open>
  Claim C7, as amended: a tree document without a root and a DFA document without states
  make the pipeline print a diagnostic and return before the export, without an
  exception. A DFA document with at least one state, whose transitions name declared
  states only, is drawn and exported, whether or not it has a start state or a
  transition.
\<close>

theorem degenerate_documents:
  "(root t = None \<longrightarrow> draw_tree t = ([''Error: No root node found in syntax tree.''], None))
   \<and> (states d = [] \<longrightarrow> draw_dfa d = Inr ([''Error: No states found in DFA.''], None))
   \<and> (states e \<noteq> [] \<and> (\<forall>t \<in> set (transitions e). from_state t \<in> state_id ` set (states e)
            \<and> to_state t \<in> state_id ` set (states e))
       \<longrightarrow> (\<exists>sc. draw_dfa e = Inr ([''DFA visualization saved as '' @ [CHR 0x27] @ ''dfa.png''
                              @ [CHR 0x27]], Some sc)))"
proof -
  have "draw_tree t = ([''Error: No root node found in syntax tree.''], None)" if "root t = None"
    using that by (simp add: draw_tree_def)
  moreover have "draw_dfa d = Inr ([''Error: No states found in DFA.''], None)" if "states d = []"
    using that by (simp add: draw_dfa_def)
  moreover have "\<exists>sc. draw_dfa e = Inr ([''DFA visualization saved as '' @ [CHR 0x27] @ ''dfa.png''
                              @ [CHR 0x27]], Some sc)"
    if "states e \<noteq> []" "\<forall>t \<in> set (transitions e). from_state t \<in> state_id ` set (states e)
            \<and> to_state t \<in> state_id ` set (states e)"
    using draw_dfa_ok [OF that] by blast
  ultimately show ?thesis by blast
qed

theorem degenerate_documents_witness:
  "root \<lparr>root = (None :: int node option), original_regex = None, regex_with_concat = None,
         postfix = None\<rparr> = None
   \<and> draw_tree \<lparr>root = (None :: int node option), original_regex = None,
         regex_with_concat = None, postfix = None\<rparr>
       = ([''Error: No root node found in syntax tree.''], None)
   \<and> states \<lparr>states = [], start_state = Some (0::int), transitions = []\<rparr> = []
   \<and> draw_dfa \<lparr>states = [], start_state = Some (0::int), transitions = []\<rparr>
       = Inr ([''Error: No states found in DFA.''], None)
   \<and> states example_dfa \<noteq> []
   \<and> list_all (\<lambda>t. from_state t \<in> state_id ` set (states example_dfa)
            \<and> to_state t \<in> state_id ` set (states example_dfa)) (transitions example_dfa)
   \<and> (\<exists>sc. draw_dfa example_dfa = Inr ([''DFA visualization saved as '' @ [CHR 0x27]
          @ ''dfa.png'' @ [CHR 0x27]], Some sc))"
proof -
  have h: "states example_dfa \<noteq> []"
    "\<forall>t \<in> set (transitions example_dfa). from_state t \<in> state_id ` set (states example_dfa)
            \<and> to_state t \<in> state_id ` set (states example_dfa)"
    by (simp_all add: example_dfa_def)
  from degenerate_documents
    [of "\<lparr>root = (None :: int node option), original_regex = None, regex_with_concat = None,
         postfix = None\<rparr>" "\<lparr>states = [], start_state = Some (0::int), transitions = []\<rparr>"
        example_dfa] h
  show ?thesis by (simp add: list_all_iff)
qed

text \<open>
  Claim C7 as it is stated fails on an empty transition set and on an absent start state:
  a document with one state and no transition, and a document with one state, one
  transition and no start state, are drawn and exported, and the only line printed is the
  one that reports the export.
\<close>

theorem degenerate_documents_counterexample:
  "draw_dfa \<lparr>states = [\<lparr>state_id = 0::int, accepting = False\<rparr>], start_state = Some 0,
             transitions = []\<rparr>
    = Inr ([''DFA visualization saved as '' @ [CHR 0x27] @ ''dfa.png'' @ [CHR 0x27]],
           Some \<lparr>edge_shapes = [],
                 node_shapes = [\<lparr>shape_id = 0, node_color = ''#87CEEB'', edge_color = ''#4169E1'',
                                 outer_circle = False, start_arrow = True\<rparr>]\<rparr>)
   \<and> draw_dfa \<lparr>states = [\<lparr>state_id = 0::int, accepting = False\<rparr>], start_state = None,
             transitions = [\<lparr>from_state = 0, to_state = 0, symbol = ''a''\<rparr>]\<rparr>
    = Inr ([''DFA visualization saved as '' @ [CHR 0x27] @ ''dfa.png'' @ [CHR 0x27]],
           Some \<lparr>edge_shapes = [SelfLoop 0 ''a''],
                 node_shapes = [\<lparr>shape_id = 0, node_color = ''#F0F0F0'', edge_color = ''#696969'',
                                 outer_circle = False, start_arrow = False\<rparr>]\<rparr>)"
  by (simp add: draw_dfa_def build_graph_def add_states_def add_node_def empty_graph_def edges_view_def
        add_transition_def has_edge_def add_edge_def touch_node_def Let_def)

text \<open>
  Claim C9, as amended: a document with at least one state, whose transitions name
  declared states only and whose \<open>start_state\<close> is the id of no state, is drawn and
  exported without an exception: the nodes drawn are the declared states, none of them
  has the start arrow with its text or a colour of a start state, and the report prints
  the id as it is.
\<close>

theorem dangling_start_state:
  fixes d :: "('a::linorder) dfa_data"
  assumes "states d \<noteq> []" and "start_state d = Some q"
    and "q \<notin> state_id ` set (states d)"
    and "\<forall>t \<in> set (transitions d). from_state t \<in> state_id ` set (states d)
            \<and> to_state t \<in> state_id ` set (states d)"
  shows "\<exists>sc. draw_dfa d = Inr ([''DFA visualization saved as '' @ [CHR 0x27] @ ''dfa.png''
                              @ [CHR 0x27]], Some sc)
     \<and> set (map shape_id (node_shapes sc)) = state_id ` set (states d)
     \<and> (\<forall>sh \<in> set (node_shapes sc). \<not> start_arrow sh
           \<and> node_color sh \<noteq> ''#90EE90'' \<and> node_color sh \<noteq> ''#87CEEB'')
     \<and> report str d ! 5 = ''Start State:       '' @ str q"
proof -
  from draw_dfa_ok [OF assms(1,4)] obtain sc where
    r: "draw_dfa d = Inr ([''DFA visualization saved as '' @ [CHR 0x27] @ ''dfa.png''
                              @ [CHR 0x27]], Some sc)"
    and ids: "set (map shape_id (node_shapes sc)) = state_id ` set (states d)"
    and sh: "\<forall>sh \<in> set (node_shapes sc). start_arrow sh = (Some (shape_id sh) = start_state d)
          \<and> (start_arrow sh \<longleftrightarrow> node_color sh = ''#90EE90'' \<or> node_color sh = ''#87CEEB'')"
    by blast
  have "\<not> start_arrow s \<and> node_color s \<noteq> ''#90EE90'' \<and> node_color s \<noteq> ''#87CEEB''"
    if "s \<in> set (node_shapes sc)" for s
  proof -
    from that ids have "shape_id s \<in> state_id ` set (states d)" by auto
    with assms(3) have "shape_id s \<noteq> q" by blast
    with sh that assms(2) show ?thesis by auto
  qed
  moreover have "report str d ! 5 = ''Start State:       '' @ str q"
    using assms(2) by (simp add: report_def Let_def)
  ultimately show ?thesis using r ids by blast
qed

theorem dangling_start_state_witness:
  "states dangling_dfa \<noteq> [] \<and> start_state dangling_dfa = Some 5
   \<and> 5 \<notin> state_id ` set (states dangling_dfa)
   \<and> list_all (\<lambda>t. from_state t \<in> state_id ` set (states dangling_dfa)
            \<and> to_state t \<in> state_id ` set (states dangling_dfa)) (transitions dangling_dfa)
   \<and> draw_dfa dangling_dfa
       = Inr ([''DFA visualization saved as '' @ [CHR 0x27] @ ''dfa.png'' @ [CHR 0x27]],
           Some \<lparr>edge_shapes = [Arrow 0 1 ''a''],
                 node_shapes = [\<lparr>shape_id = 0, node_color = ''#F0F0F0'', edge_color = ''#696969'',
                                 outer_circle = False, start_arrow = False\<rparr>,
                                \<lparr>shape_id = 1, node_color = ''#FFB6C1'', edge_color = ''#DC143C'',
                                 outer_circle = True, start_arrow = False\<rparr>]\<rparr>)
   \<and> (\<exists>sc. draw_dfa dangling_dfa = Inr ([''DFA visualization saved as '' @ [CHR 0x27] @ ''dfa.png''
                              @ [CHR 0x27]], Some sc)
     \<and> set (map shape_id (node_shapes sc)) = state_id ` set (states dangling_dfa)
     \<and> (\<forall>sh \<in> set (node_shapes sc). \<not> start_arrow sh
           \<and> node_color sh \<noteq> ''#90EE90'' \<and> node_color sh \<noteq> ''#87CEEB'')
     \<and> report str_int dangling_dfa ! 5 = ''Start State:       5'')"
proof -
  have h1: "states dangling_dfa \<noteq> []" and h2: "start_state dangling_dfa = Some 5"
    and h3: "5 \<notin> state_id ` set (states dangling_dfa)"
    and h4: "\<forall>t \<in> set (transitions dangling_dfa). from_state t \<in> state_id ` set (states dangling_dfa)
            \<and> to_state t \<in> state_id ` set (states dangling_dfa)"
    by (simp_all add: dangling_dfa_def)
  have ev: "draw_dfa dangling_dfa
       = Inr ([''DFA visualization saved as '' @ [CHR 0x27] @ ''dfa.png'' @ [CHR 0x27]],
           Some \<lparr>edge_shapes = [Arrow 0 1 ''a''],
                 node_shapes = [\<lparr>shape_id = 0, node_color = ''#F0F0F0'', edge_color = ''#696969'',
                                 outer_circle = False, start_arrow = False\<rparr>,
                                \<lparr>shape_id = 1, node_color = ''#FFB6C1'', edge_color = ''#DC143C'',
                                 outer_circle = True, start_arrow = False\<rparr>]\<rparr>)"
    by (simp add: dangling_dfa_def draw_dfa_def build_graph_def add_states_def add_node_def empty_graph_def
          edges_view_def add_transition_def has_edge_def add_edge_def touch_node_def Let_def)
  from dangling_start_state [OF h1 h2 h3 h4, of str_int] h1 h2 h3 h4 ev
  show ?thesis by (simp add: str_int_5 list_all_iff)
qed

text \<open>
  Claim C9 as it is stated fails when a transition names an undeclared state, for
  instance the dangling start state itself: \<open>add_edge\<close> creates a node without the
  attribute \<open>accepting\<close>, and the loop over the nodes raises \<open>KeyError\<close> on it
  (\<open>G.nodes[node_id]['accepting']\<close>) before anything is exported.
\<close>

theorem dangling_start_state_counterexample:
  "draw_dfa \<lparr>states = [\<lparr>state_id = 0::int, accepting = False\<rparr>], start_state = Some 5,
             transitions = [\<lparr>from_state = 5, to_state = 0, symbol = ''a''\<rparr>]\<rparr> = Inl KeyError
   \<and> states \<lparr>states = [\<lparr>state_id = 0::int, accepting = False\<rparr>], start_state = Some 5,
             transitions = [\<lparr>from_state = 5, to_state = 0, symbol = ''a''\<rparr>]\<rparr> \<noteq> []
   \<and> (5::int) \<notin> state_id ` set [\<lparr>state_id = 0::int, accepting = False\<rparr>]"
  by (simp add: draw_dfa_def build_graph_def add_states_def add_node_def empty_graph_def
        edges_view_def add_transition_def has_edge_def add_edge_def touch_node_def Let_def)

text \<open>
  Claim C8, as amended: the loader returns the parsed document exactly when the file
  opens and \<open>json.load\<close> returns it. Exactly when \<open>FileNotFoundError\<close> or
  \<open>JSONDecodeError\<close> is raised, it prints one line that names the failure, a different
  line for each, and ends the process with status 1. Every other exception of \<open>open\<close> or
  \<open>json.load\<close> leaves the loader uncaught, with no line printed by the loader. Only the
  first outcome holds a document. Both scripts load the same way.
\<close>

theorem loader_contract:
  "(load_dfa files json_load f = Returned doc \<longleftrightarrow> try_body files json_load f = Inr doc)
   \<and> (load_dfa files json_load f = Exited status printed \<longleftrightarrow>
        status = 1 \<and>
        (try_body files json_load f = Inl FileNotFoundError
           \<and> printed = [''Error: '' @ f @ '' not found.'']
         \<or> try_body files json_load f = Inl JSONDecodeError
           \<and> printed = [''Error: Invalid JSON in '' @ f]))
   \<and> (load_dfa files json_load f = Raised e \<longleftrightarrow>
        try_body files json_load f = Inl e \<and> e \<noteq> FileNotFoundError \<and> e \<noteq> JSONDecodeError)
   \<and> load_syntax_tree files json_load f = load_dfa files json_load f
   \<and> ''Error: '' @ f @ '' not found.'' \<noteq> ''Error: Invalid JSON in '' @ f"
proof -
  have "length (''Error: '' @ f @ '' not found.'') \<noteq> length (''Error: Invalid JSON in '' @ f)"
    by simp
  then have m: "''Error: '' @ f @ '' not found.'' \<noteq> ''Error: Invalid JSON in '' @ f"
    by metis
  have r: "load_dfa files json_load f = Returned doc \<longleftrightarrow> try_body files json_load f = Inr doc"
    by (auto simp: load_dfa_def split: sum.splits)
  have x: "load_dfa files json_load f = Exited status printed \<longleftrightarrow>
        status = 1 \<and>
        (try_body files json_load f = Inl FileNotFoundError
           \<and> printed = [''Error: '' @ f @ '' not found.'']
         \<or> try_body files json_load f = Inl JSONDecodeError
           \<and> printed = [''Error: Invalid JSON in '' @ f])"
    by (auto simp: load_dfa_def split: sum.splits)
  have u: "load_dfa files json_load f = Raised e \<longleftrightarrow>
        try_body files json_load f = Inl e \<and> e \<noteq> FileNotFoundError \<and> e \<noteq> JSONDecodeError"
    by (auto simp: load_dfa_def split: sum.splits)
  have s: "load_syntax_tree files json_load f = load_dfa files json_load f"
    by (simp add: load_dfa_def load_syntax_tree_def)
  from r x u s m show ?thesis by blast
qed

theorem loader_contract_witness:
  "try_body example_files example_json_load ''dfa.json''
      = Inr \<lparr>states = [], start_state = None, transitions = []\<rparr>
   \<and> load_dfa example_files example_json_load ''dfa.json''
      = Returned \<lparr>states = [], start_state = None, transitions = []\<rparr>
   \<and> try_body example_files example_json_load ''absent.json'' = Inl FileNotFoundError
   \<and> load_dfa example_files example_json_load ''absent.json''
      = Exited 1 [''Error: absent.json not found.'']
   \<and> try_body example_files example_json_load ''broken.json'' = Inl JSONDecodeError
   \<and> load_dfa example_files example_json_load ''broken.json''
      = Exited 1 [''Error: Invalid JSON in broken.json'']"
proof -
  have t: "try_body example_files example_json_load ''dfa.json''
      = Inr \<lparr>states = [], start_state = None, transitions = []\<rparr>"
    "try_body example_files example_json_load ''absent.json'' = Inl FileNotFoundError"
    "try_body example_files example_json_load ''broken.json'' = Inl JSONDecodeError"
    by (simp_all add: try_body_def example_files_def example_json_load_def)
  from t loader_contract [of example_files example_json_load "''dfa.json''"
      "\<lparr>states = [], start_state = None, transitions = []\<rparr>"]
    loader_contract [of example_files example_json_load "''absent.json''" _ 1
      "[''Error: absent.json not found.'']"]
    loader_contract [of example_files example_json_load "''broken.json''" _ 1
      "[''Error: Invalid JSON in broken.json'']"]
  show ?thesis by simp
qed

text \<open>
  Claim C8 as it is stated fails on a file that is there and that \<open>json.load\<close> cannot
  decode, and on a name that \<open>open\<close> cannot open: the exception is none of the two the
  loader catches, so the loader neither returns a document nor prints its line and calls
  \<open>sys.exit\<close>.
\<close>

theorem loader_contract_counterexample:
  "example_files ''binary.json'' = Inr [CHR 0xFF]
   \<and> example_json_load [CHR 0xFF] = Inl UnicodeDecodeError
   \<and> load_dfa example_files example_json_load ''binary.json'' = Raised UnicodeDecodeError
   \<and> example_files ''plots'' = Inl IsADirectoryError
   \<and> load_dfa example_files example_json_load ''plots'' = Raised IsADirectoryError"
  by (simp add: load_dfa_def try_body_def example_files_def example_json_load_def)

end
